theory Spec2Isabelle
  imports Complex_Main "HOL-Library.Word"
begin

section \<open>Image loading utilities of the custom-building panel\<close>

text \<open>
  This theory embeds the image utilities of
  \<^verbatim>\<open>src/components/game/panels/CustomBuildingPanel.tsx\<close> (the part headed
  ``IMAGE LOADING UTILITIES''): the WebP negotiation, the image cache and loader, the
  chroma-key filter \<^verbatim>\<open>filterBackgroundColor\<close>, and the content-bounds analysis
  \<^verbatim>\<open>analyzeContentBounds\<close> with its cache.

  Conventions of the embedding.
  \<^item> A loaded \<^verbatim>\<open>HTMLImageElement\<close> is represented by what a canvas of size
    \<^verbatim>\<open>img.naturalWidth || img.width\<close> by \<^verbatim>\<open>img.naturalHeight || img.height\<close>
    holds after \<^verbatim>\<open>drawImage(img, 0, 0)\<close>: the two dimensions and the RGBA bytes, row by
    row, four bytes per pixel.
  \<^item> JavaScript numbers that hold pixel coordinates are integers; the ratios of the
    content bounds are real numbers; \<^verbatim>\<open>Math.sqrt\<close> is the IEEE double nearest to the
    square root, and a threshold is any real number.
  \<^item> The browser is an explicit parameter: whether a 2D context can be obtained, whether
    the canvas may be read back, whether an image decodes.
  \<^item> Promises are run to completion: a rejected promise is the \<open>Inl\<close> branch of a sum,
    a mutation of a module variable is a new value of the state record.
\<close>

subsection \<open>Bitmaps and the canvas\<close>

type_synonym u8 = "8 word"

record bitmap =
  width :: nat
  height :: nat
  data :: "u8 list"

text \<open>The buffer invariant of \<^verbatim>\<open>ImageData\<close>: four bytes for each of the
  \<open>width * height\<close> pixels.\<close>

definition wf_bitmap :: "bitmap \<Rightarrow> bool" where
  "wf_bitmap img \<longleftrightarrow> length (data img) = 4 * (width img * height img)"

datatype error =
    LoadError string
  | NoCanvasContext
  | SecurityError
  | IndexSizeError
  | FilteredImageError

type_synonym pixel = "u8 \<times> u8 \<times> u8 \<times> u8"

text \<open>
  The browser facilities the two pixel routines depend on:
  \<^verbatim>\<open>canvas.getContext('2d')\<close> may return \<^verbatim>\<open>null\<close>; \<^verbatim>\<open>getImageData\<close> throws a
  \<^verbatim>\<open>SecurityError\<close> on a canvas tainted by cross-origin data; the image created from
  \<^verbatim>\<open>canvas.toDataURL()\<close> may fire \<^verbatim>\<open>onerror\<close> instead of \<^verbatim>\<open>onload\<close>.

  A pixel written with \<^verbatim>\<open>putImageData\<close> does not come back byte for byte: the canvas
  keeps the alpha byte, but it keeps the colour bytes in its backing store, which current
  browsers hold premultiplied by alpha, with roundings of their own. \<open>stored_rgb cv p\<close>
  is the colour that is read back (through \<^verbatim>\<open>toDataURL\<close>, decoding, and a canvas
  again) for a pixel written as \<open>p\<close>.
\<close>

record canvas_env =
  has_context :: bool
  origin_clean :: bool
  data_url_loads :: bool
  stored_rgb :: "pixel \<Rightarrow> u8 \<times> u8 \<times> u8"


text \<open>
  \<^verbatim>\<open>ctx.getImageData(0, 0, w, h)\<close> after \<^verbatim>\<open>ctx.drawImage(img, 0, 0)\<close>, for a loaded
  image. By the HTML standard the call throws \<^verbatim>\<open>IndexSizeError\<close> when \<open>w\<close> or \<open>h\<close>
  is zero, and \<^verbatim>\<open>SecurityError\<close> when the canvas is not origin-clean (the case the
  source's comment names).
\<close>

definition getImageData :: "canvas_env \<Rightarrow> bitmap \<Rightarrow> error + u8 list" where
  "getImageData cv img =
     (if width img = 0 \<or> height img = 0 then Inl IndexSizeError
      else if \<not> origin_clean cv then Inl SecurityError
      else Inr (data img))"

subsection \<open>The chroma-key filter\<close>

record rgb =
  r :: int
  g :: int
  b :: int

definition BACKGROUND_COLOR :: rgb where
  "BACKGROUND_COLOR = \<lparr>r = 255, g = 0, b = 0\<rparr>"

definition COLOR_THRESHOLD :: real where
  "COLOR_THRESHOLD = 155"

text \<open>
  \<^verbatim>\<open>Math.sqrt\<close> on a natural number \<open>n\<close> below \<open>4 ^ 53\<close> (a sum of three squared
  differences of bytes is at most 195075, and \<^verbatim>\<open>Math.pow(x, 2)\<close> and the sums are
  exact on such integers): the IEEE double nearest to the square root. With
  \<open>4 ^ e \<le> n < 4 ^ (e + 1)\<close> the root lies between \<open>2 ^ e\<close> and \<open>2 ^ (e + 1)\<close>, where the
  doubles are the multiples of \<open>2 ^ e / 2 ^ 52\<close>: the root is scaled by \<open>2 ^ (52 - e)\<close>,
  rounded to the nearest integer (the 53-bit significand) and scaled back. No tie
  arises, the scaled root being an integer or irrational.
\<close>

fun binade :: "nat \<Rightarrow> nat" where
  "binade n = (if n < 4 then 0 else Suc (binade (n div 4)))"

declare binade.simps [simp del]

definition Math_sqrt :: "nat \<Rightarrow> real" where
  "Math_sqrt n =
     (if n = 0 then 0
      else real_of_int (round (sqrt (real n) * 2 ^ (52 - binade n))) / 2 ^ (52 - binade n))"

text \<open>
  \<^verbatim>\<open>Math.sqrt(Math.pow(r - BACKGROUND_COLOR.r, 2) + ...)\<close> for the pixel whose first byte
  is at index \<open>i\<close>. A read beyond the end of the typed array yields \<^verbatim>\<open>undefined\<close>, the
  arithmetic then yields \<^verbatim>\<open>NaN\<close>; that is the value \<open>None\<close>.
\<close>

definition distance :: "u8 list \<Rightarrow> nat \<Rightarrow> real option" where
  "distance d i =
     (if i + 2 < length d then
        Some (Math_sqrt (nat
          ((uint (d ! i) - r BACKGROUND_COLOR)\<^sup>2 +
           (uint (d ! (i + 1)) - g BACKGROUND_COLOR)\<^sup>2 +
           (uint (d ! (i + 2)) - b BACKGROUND_COLOR)\<^sup>2)))
      else None)"

text \<open>
  One iteration of the loop body: \<^verbatim>\<open>if (distance <= threshold) data[i + 3] = 0\<close>.
  A comparison with \<^verbatim>\<open>NaN\<close> is false; a write beyond the end of a typed array is
  ignored, as \<open>list_update\<close> ignores it.
\<close>

definition filter_pixel :: "real \<Rightarrow> nat \<Rightarrow> u8 list \<Rightarrow> u8 list" where
  "filter_pixel threshold i d =
     (case distance d i of
        Some dv \<Rightarrow> if dv \<le> threshold then d[i + 3 := 0] else d
      | None \<Rightarrow> d)"

lemma length_filter_pixel: "length (filter_pixel threshold i d) = length d"
  by (simp add: filter_pixel_def split: option.splits)

text \<open>\<^verbatim>\<open>for (let i = 0; i < data.length; i += 4) { ... }\<close>\<close>

function filter_loop :: "real \<Rightarrow> nat \<Rightarrow> u8 list \<Rightarrow> u8 list" where
  "filter_loop threshold i d =
     (if i < length d then filter_loop threshold (i + 4) (filter_pixel threshold i d) else d)"
  by pat_completeness auto
termination
  by (relation "measure (\<lambda>(threshold, i, d). length d - i)")
     (auto simp: length_filter_pixel)

declare filter_loop.simps [simp del]

text \<open>
  \<^verbatim>\<open>ctx.putImageData(imageData, 0, 0)\<close>, \<^verbatim>\<open>canvas.toDataURL()\<close> and the decoding of
  that URL into the new image, as the bytes the new image shows: of every pixel (four
  bytes from index \<open>j - j mod 4\<close>) the alpha byte as written, the three colour bytes as
  the canvas returns them.
\<close>

definition channel :: "nat \<Rightarrow> u8 \<times> u8 \<times> u8 \<Rightarrow> u8" where
  "channel c colour = (if c = 0 then fst colour else if c = 1 then fst (snd colour)
                       else snd (snd colour))"

definition canvas_roundtrip :: "canvas_env \<Rightarrow> u8 list \<Rightarrow> u8 list" where
  "canvas_roundtrip cv d =
     map (\<lambda>j. if j mod 4 = 3 then d ! j
              else channel (j mod 4)
                     (stored_rgb cv (d ! (j - j mod 4), d ! (j - j mod 4 + 1),
                                     d ! (j - j mod 4 + 2), d ! (j - j mod 4 + 3))))
         [0..<length d]"

text \<open>
  \<^verbatim>\<open>filterBackgroundColor(img, threshold = COLOR_THRESHOLD)\<close>. The optional argument is
  an \<open>option\<close>. The promise rejects when no 2D context is obtained, when anything in the
  \<^verbatim>\<open>try\<close> block throws, and when the re-encoded image fails to load. The resolved image
  is the one decoded from \<^verbatim>\<open>canvas.toDataURL()\<close> after the modified buffer was put
  back: the canvas dimensions, and the buffer as it comes back from the canvas. The
  counter \<^verbatim>\<open>filteredCount\<close> only feeds the console and is left out.
\<close>

definition filterBackgroundColor :: "canvas_env \<Rightarrow> bitmap \<Rightarrow> real option \<Rightarrow> error + bitmap" where
  "filterBackgroundColor cv img threshold_arg =
     (let threshold = (case threshold_arg of None \<Rightarrow> COLOR_THRESHOLD | Some t \<Rightarrow> t) in
      if \<not> has_context cv then Inl NoCanvasContext
      else case getImageData cv img of
             Inl e \<Rightarrow> Inl e
           | Inr d \<Rightarrow>
               if data_url_loads cv
               then Inr \<lparr>width = width img, height = height img,
                         data = canvas_roundtrip cv (filter_loop threshold 0 d)\<rparr>
               else Inl FilteredImageError)"

text \<open>The four bytes of the pixel in column \<open>x\<close> of row \<open>y\<close>.\<close>

definition pixel_index :: "bitmap \<Rightarrow> nat \<Rightarrow> nat \<Rightarrow> nat" where
  "pixel_index img x y = (y * width img + x) * 4"




definition alpha :: "bitmap \<Rightarrow> nat \<Rightarrow> nat \<Rightarrow> u8" where
  "alpha img x y = data img ! (pixel_index img x y + 3)"





subsection \<open>Content bounds\<close>

text \<open>\<^verbatim>\<open>const alphaThreshold = 10\<close>: pixels with a larger alpha are content.\<close>

definition alphaThreshold :: int where
  "alphaThreshold = 10"

text \<open>
  \<^verbatim>\<open>data[idx + 3] > alphaThreshold\<close>; a read beyond the end of the typed array yields
  \<^verbatim>\<open>undefined\<close>, and the comparison is then false.
\<close>

definition is_content :: "u8 list \<Rightarrow> nat \<Rightarrow> bool" where
  "is_content d idx \<longleftrightarrow> idx + 3 < length d \<and> alphaThreshold < uint (d ! (idx + 3))"

text \<open>
  The body of the inner loop on the four running variables
  \<^verbatim>\<open>minX, minY, maxX, maxY\<close>, for the pixel in column \<open>x\<close> of row \<open>y\<close>.
\<close>

fun visit :: "u8 list \<Rightarrow> nat \<Rightarrow> nat \<Rightarrow> nat \<Rightarrow> nat \<times> nat \<times> nat \<times> nat \<Rightarrow> nat \<times> nat \<times> nat \<times> nat" where
  "visit d w y x (minX, minY, maxX, maxY) =
     (if is_content d ((y * w + x) * 4)
      then (if x < minX then x else minX,
            if y < minY then y else minY,
            if x > maxX then x else maxX,
            if y > maxY then y else maxY)
      else (minX, minY, maxX, maxY))"

text \<open>
  \<^verbatim>\<open>for (let y = 0; y < height; y++) for (let x = 0; x < width; x++) { ... }\<close>,
  started from \<^verbatim>\<open>minX = width, minY = height, maxX = 0, maxY = 0\<close>.
\<close>

definition scan :: "u8 list \<Rightarrow> nat \<Rightarrow> nat \<Rightarrow> nat \<times> nat \<times> nat \<times> nat" where
  "scan d w h = fold (\<lambda>y. fold (\<lambda>x. visit d w y x) [0..<w]) [0..<h] (w, h, 0, 0)"

record ContentBounds =
  minX :: int
  minY :: int
  maxX :: int
  maxY :: int
  contentWidth :: int
  contentHeight :: int
  centerOffsetX :: real
  centerOffsetY :: real
  contentRatioX :: real
  contentRatioY :: real

text \<open>
  The record that the source writes out three times (no 2D context, \<^verbatim>\<open>getImageData\<close>
  throws, no content found): ``assume content fills entire image''.
\<close>

definition whole_image :: "nat \<Rightarrow> nat \<Rightarrow> ContentBounds" where
  "whole_image w h =
     \<lparr>minX = 0, minY = 0, maxX = int w, maxY = int h,
      contentWidth = int w, contentHeight = int h,
      centerOffsetX = 0, centerOffsetY = 0,
      contentRatioX = 1, contentRatioY = 1\<rparr>"

text \<open>
  The last part of \<^verbatim>\<open>analyzeContentBounds\<close>, from
  \<^verbatim>\<open>const contentWidth = maxX - minX + 1\<close> to the returned record, as a function of
  the image size and of the four bounds the scan found.
\<close>

definition bounds_record :: "nat \<Rightarrow> nat \<Rightarrow> int \<Rightarrow> int \<Rightarrow> int \<Rightarrow> int \<Rightarrow> ContentBounds" where
  "bounds_record w h mnX mnY mxX mxY =
     (let cw = mxX - mnX + 1;
          ch = mxY - mnY + 1;
          contentCenterX = real_of_int mnX + real_of_int cw / 2;
          contentCenterY = real_of_int mnY + real_of_int ch / 2;
          imageCenterX = real w / 2;
          imageCenterY = real h / 2
      in \<lparr>minX = mnX, minY = mnY, maxX = mxX, maxY = mxY,
          contentWidth = cw, contentHeight = ch,
          centerOffsetX = (contentCenterX - imageCenterX) / real w,
          centerOffsetY = (contentCenterY - imageCenterY) / real h,
          contentRatioX = real_of_int cw / real w,
          contentRatioY = real_of_int ch / real h\<rparr>)"

definition analyzeContentBounds :: "canvas_env \<Rightarrow> bitmap \<Rightarrow> ContentBounds" where
  "analyzeContentBounds cv img =
     (let w = width img; h = height img in
      if \<not> has_context cv then whole_image w h
      else case getImageData cv img of
             Inl e \<Rightarrow> whole_image w h
           | Inr d \<Rightarrow>
               (case scan d w h of
                  (mnX, mnY, mxX, mxY) \<Rightarrow>
                    if mnX > mxX \<or> mnY > mxY then whole_image w h
                    else bounds_record w h (int mnX) (int mnY) (int mxX) (int mxY)))"

text \<open>The set of content pixels of a bitmap: those with alpha above the threshold.\<close>

definition content :: "bitmap \<Rightarrow> (nat \<times> nat) set" where
  "content img = {(x, y). x < width img \<and> y < height img \<and> 10 < uint (alpha img x y)}"

subsection \<open>Module state, network and WebP negotiation\<close>

text \<open>
  The network and the decoder are a parameter: \<open>fetch w url\<close> is the image that
  \<^verbatim>\<open>img.src = url\<close> ends in (\<^verbatim>\<open>onload\<close>), or \<open>None\<close> when it ends in
  \<^verbatim>\<open>onerror\<close>; \<open>probe w\<close> is the outcome of decoding the embedded 1x1 WebP image.
\<close>

datatype probe_result = ProbeLoaded nat nat | ProbeError

record world =
  fetch :: "string \<Rightarrow> bitmap option"
  probe :: probe_result

text \<open>
  The module variables \<^verbatim>\<open>imageCache\<close>, \<^verbatim>\<open>contentBoundsCache\<close>,
  \<^verbatim>\<open>webpSupported\<close> and \<^verbatim>\<open>imageLoadCallbacks\<close> (listeners are numbered, the
  \<^verbatim>\<open>Set\<close> keeps insertion order). Two more fields record what the module did:
  \<open>requests\<close> lists the URLs assigned to \<^verbatim>\<open>img.src\<close> by \<^verbatim>\<open>loadImageDirect\<close>,
  \<open>notifications\<close> lists the listeners called, in order.
\<close>

record loader_state =
  imageCache :: "string \<Rightarrow> bitmap option"
  contentBoundsCache :: "string \<Rightarrow> ContentBounds option"
  webpSupported :: "bool option"
  imageLoadCallbacks :: "nat list"
  requests :: "string list"
  notifications :: "nat list"

definition initial_state :: loader_state where
  "initial_state =
     \<lparr>imageCache = Map.empty, contentBoundsCache = Map.empty, webpSupported = None,
      imageLoadCallbacks = [], requests = [], notifications = []\<rparr>"

text \<open>
  \<^verbatim>\<open>checkWebPSupport\<close>: the stored answer if there is one, otherwise the probe, whose
  answer is stored. \<^verbatim>\<open>onload\<close> stores \<^verbatim>\<open>img.width > 0 && img.height > 0\<close>,
  \<^verbatim>\<open>onerror\<close> stores \<^verbatim>\<open>false\<close>. The promise never rejects.
\<close>

definition checkWebPSupport :: "world \<Rightarrow> loader_state \<Rightarrow> bool \<times> loader_state" where
  "checkWebPSupport w st =
     (case webpSupported st of
        Some supported \<Rightarrow> (supported, st)
      | None \<Rightarrow>
          (case probe w of
             ProbeLoaded pw ph \<Rightarrow>
               (0 < pw \<and> 0 < ph, st\<lparr>webpSupported := Some (0 < pw \<and> 0 < ph)\<rparr>)
           | ProbeError \<Rightarrow> (False, st\<lparr>webpSupported := Some False\<rparr>)))"

text \<open>\<^verbatim>\<open>src.endsWith(suffix)\<close>\<close>

definition endsWith :: "string \<Rightarrow> string \<Rightarrow> bool" where
  "endsWith src suffix \<longleftrightarrow>
     length suffix \<le> length src \<and> drop (length src - length suffix) src = suffix"

text \<open>
  \<^verbatim>\<open>getWebPPath\<close>: \<^verbatim>\<open>src.replace(/\.png$/, '.webp')\<close> for a path that ends in
  \<^verbatim>\<open>.png\<close>, \<^verbatim>\<open>null\<close> otherwise.
\<close>

definition getWebPPath :: "string \<Rightarrow> string option" where
  "getWebPPath src =
     (if endsWith src ''.png'' then Some (take (length src - 4) src @ ''.webp'') else None)"

text \<open>
  \<^verbatim>\<open>onImageLoaded(callback)\<close> adds a listener to the set; the function it returns
  removes it again.
\<close>

definition onImageLoaded :: "nat \<Rightarrow> loader_state \<Rightarrow> loader_state" where
  "onImageLoaded callback st =
     (if callback \<in> set (imageLoadCallbacks st) then st
      else st\<lparr>imageLoadCallbacks := imageLoadCallbacks st @ [callback]\<rparr>)"

definition unsubscribe :: "nat \<Rightarrow> loader_state \<Rightarrow> loader_state" where
  "unsubscribe callback st = st\<lparr>imageLoadCallbacks := removeAll callback (imageLoadCallbacks st)\<rparr>"

text \<open>\<^verbatim>\<open>notifyImageLoaded\<close>: \<^verbatim>\<open>imageLoadCallbacks.forEach(cb => cb())\<close>\<close>

definition notifyImageLoaded :: "loader_state \<Rightarrow> loader_state" where
  "notifyImageLoaded st = st\<lparr>notifications := notifications st @ imageLoadCallbacks st\<rparr>"

text \<open>
  \<^verbatim>\<open>loadImageDirect\<close>: one request; on \<^verbatim>\<open>onload\<close> the image is cached under
  \<open>src\<close>, the listeners are notified and the promise resolves; on \<^verbatim>\<open>onerror\<close> the
  promise rejects. (The \<^verbatim>\<open>crossOrigin\<close> attribute set for http(s) URLs only bears on
  whether a canvas stays origin-clean, which is a parameter of the pixel routines.)
\<close>

definition loadImageDirect :: "world \<Rightarrow> string \<Rightarrow> loader_state \<Rightarrow> (error + bitmap) \<times> loader_state" where
  "loadImageDirect w src st =
     (let st1 = st\<lparr>requests := requests st @ [src]\<rparr> in
      case fetch w src of
        Some img \<Rightarrow>
          (Inr img, notifyImageLoaded (st1\<lparr>imageCache := (imageCache st1)(src \<mapsto> img)\<rparr>))
      | None \<Rightarrow> (Inl (LoadError src), st1))"

text \<open>
  \<^verbatim>\<open>loadImage\<close>: the cached image if there is one; otherwise the WebP sibling when
  the path ends in \<^verbatim>\<open>.png\<close> and WebP is supported, cached under \<open>src\<close> as well;
  when that request fails (\<^verbatim>\<open>catch\<close>) or is not made, the path itself.
\<close>

definition loadImage :: "world \<Rightarrow> string \<Rightarrow> loader_state \<Rightarrow> (error + bitmap) \<times> loader_state" where
  "loadImage w src st =
     (case imageCache st src of
        Some img \<Rightarrow> (Inr img, st)
      | None \<Rightarrow>
          (case getWebPPath src of
             None \<Rightarrow> loadImageDirect w src st
           | Some webpPath \<Rightarrow>
               (case checkWebPSupport w st of
                  (supportsWebP, st1) \<Rightarrow>
                    if supportsWebP then
                      (case loadImageDirect w webpPath st1 of
                         (Inr img, st2) \<Rightarrow>
                           (Inr img, st2\<lparr>imageCache := (imageCache st2)(src \<mapsto> img)\<rparr>)
                       | (Inl e, st2) \<Rightarrow> loadImageDirect w src st2)
                    else loadImageDirect w src st1)))"

text \<open>
  \<^verbatim>\<open>loadSpriteImage\<close>: the filtered variant is cached under the key
  \<^verbatim>\<open>`${src}_filtered`\<close>.
\<close>

definition loadSpriteImage ::
  "world \<Rightarrow> canvas_env \<Rightarrow> string \<Rightarrow> bool \<Rightarrow> loader_state \<Rightarrow> (error + bitmap) \<times> loader_state" where
  "loadSpriteImage w cv src applyFilter st =
     (let cacheKey = (if applyFilter then src @ ''_filtered'' else src) in
      case imageCache st cacheKey of
        Some img \<Rightarrow> (Inr img, st)
      | None \<Rightarrow>
          (case loadImage w src st of
             (Inl e, st1) \<Rightarrow> (Inl e, st1)
           | (Inr img, st1) \<Rightarrow>
               if applyFilter then
                 (case filterBackgroundColor cv img None of
                    Inl e \<Rightarrow> (Inl e, st1)
                  | Inr filteredImg \<Rightarrow>
                      (Inr filteredImg,
                       st1\<lparr>imageCache := (imageCache st1)(cacheKey \<mapsto> filteredImg)\<rparr>))
               else (Inr img, st1)))"

text \<open>\<^verbatim>\<open>clearImageCache\<close> empties both caches and nothing else.\<close>

definition clearImageCache :: "loader_state \<Rightarrow> loader_state" where
  "clearImageCache st = st\<lparr>imageCache := Map.empty, contentBoundsCache := Map.empty\<rparr>"

text \<open>\<^verbatim>\<open>getContentBounds\<close>: the cached record for \<open>src\<close>, or a fresh analysis that is
  then cached.\<close>

definition getContentBounds ::
  "canvas_env \<Rightarrow> string \<Rightarrow> bitmap \<Rightarrow> loader_state \<Rightarrow> ContentBounds \<times> loader_state" where
  "getContentBounds cv src img st =
     (case contentBoundsCache st src of
        Some bounds \<Rightarrow> (bounds, st)
      | None \<Rightarrow>
          (let bounds = analyzeContentBounds cv img in
           (bounds, st\<lparr>contentBoundsCache := (contentBoundsCache st)(src \<mapsto> bounds)\<rparr>)))"

text \<open>
  The operations that the module exports and that touch its state, each with the
  environment it runs in, and the state after a sequence of them.
\<close>

datatype operation =
    OnImageLoaded nat
  | Unsubscribe nat
  | LoadImage world string
  | LoadSpriteImage world canvas_env string bool
  | ClearImageCache
  | GetContentBounds canvas_env string bitmap

fun exec :: "operation \<Rightarrow> loader_state \<Rightarrow> loader_state" where
  "exec (OnImageLoaded callback) st = onImageLoaded callback st"
| "exec (Unsubscribe callback) st = unsubscribe callback st"
| "exec (LoadImage w src) st = snd (loadImage w src st)"
| "exec (LoadSpriteImage w cv src applyFilter) st = snd (loadSpriteImage w cv src applyFilter st)"
| "exec ClearImageCache st = clearImageCache st"
| "exec (GetContentBounds cv src img) st = snd (getContentBounds cv src img st)"

definition run :: "operation list \<Rightarrow> loader_state \<Rightarrow> loader_state" where
  "run ops st = fold exec ops st"

text \<open>The requests issued between two states.\<close>

definition issued :: "loader_state \<Rightarrow> loader_state \<Rightarrow> string list" where
  "issued st st' = drop (length (requests st)) (requests st')"

subsection \<open>Sample inputs\<close>

text \<open>
  A canvas where everything works, with a premultiplied store: a fully transparent pixel
  comes back black, any other pixel with the colour written.
\<close>

definition canvas_available :: canvas_env where
  "canvas_available =
     \<lparr>has_context = True, origin_clean = True, data_url_loads = True,
      stored_rgb = (\<lambda>(cr, cg, cb, ca). if ca = 0 then (0, 0, 0) else (cr, cg, cb))\<rparr>"

text \<open>A pure red pixel next to an opaque-ish blue one.\<close>

definition two_pixels :: bitmap where
  "two_pixels = \<lparr>width = 2, height = 1, data = [255, 0, 0, 255, 0, 0, 255, 200]\<rparr>"


text \<open>An opaque pixel at distance \<open>\<surd>3\<close> from the background colour, and the double
  nearest to \<open>\<surd>3\<close>, which lies below it.\<close>

definition near_red_pixel :: bitmap where
  "near_red_pixel = \<lparr>width = 1, height = 1, data = [254, 1, 1, 255]\<rparr>"

definition sqrt3_double :: real where
  "sqrt3_double = 7800463371553962 / 2 ^ 52"

text \<open>A single fully transparent pixel.\<close>

definition transparent_pixel :: bitmap where
  "transparent_pixel = \<lparr>width = 1, height = 1, data = [0, 0, 0, 0]\<rparr>"

text \<open>Three columns, two rows; alpha 11 at (1, 0), alpha 10 at (2, 0), alpha 255 at (2, 1).\<close>

definition six_pixels :: bitmap where
  "six_pixels = \<lparr>width = 3, height = 2, data =
     [0, 0, 0, 0,  9, 9, 9, 11,  0, 0, 0, 10,
      0, 0, 0, 0,  0, 0, 0, 0,   1, 2, 3, 255]\<rparr>"

text \<open>Two pixels with alpha 10 and 0: neither is content.\<close>

definition faint_pixels :: bitmap where
  "faint_pixels = \<lparr>width = 2, height = 1, data = [1, 2, 3, 10, 4, 5, 6, 0]\<rparr>"

text \<open>
  Three networks: one where only the PNG exists, one where the WebP sibling exists as
  well, one where nothing loads and the WebP probe fails.
\<close>

definition fallback_world :: world where
  "fallback_world =
     \<lparr>fetch = (\<lambda>url. if url = ''house.png'' then Some six_pixels else None),
      probe = ProbeLoaded 1 1\<rparr>"

definition webp_world :: world where
  "webp_world =
     \<lparr>fetch = (\<lambda>url. if url = ''house.webp'' then Some two_pixels
                     else if url = ''house.png'' then Some six_pixels else None),
      probe = ProbeLoaded 1 1\<rparr>"

definition offline_world :: world where
  "offline_world = \<lparr>fetch = (\<lambda>url. None), probe = ProbeError\<rparr>"

text \<open>The state after two listeners registered, and the state after one analysis.\<close>

definition listening :: loader_state where
  "listening = onImageLoaded 8 (onImageLoaded 7 initial_state)"

definition analysed :: loader_state where
  "analysed = snd (getContentBounds canvas_available ''house.png'' six_pixels initial_state)"

subsection \<open>Auxiliary notions for the proofs\<close>


text \<open>The pixels in the order the two loops visit them, and the content pixels among
  a list of pixels.\<close>

definition pixels :: "nat \<Rightarrow> nat \<Rightarrow> (nat \<times> nat) list" where
  "pixels w h = concat (map (\<lambda>y. map (\<lambda>x. (x, y)) [0..<w]) [0..<h])"

definition content_of :: "u8 list \<Rightarrow> nat \<Rightarrow> (nat \<times> nat) list \<Rightarrow> (nat \<times> nat) set" where
  "content_of d w ps = {p \<in> set ps. is_content d ((snd p * w + fst p) * 4)}"

section \<open>Properties of the chroma-key filter\<close>







lemma pixel_in_range:
  assumes "wf_bitmap img" "x < width img" "y < height img"
  shows "pixel_index img x y + 3 < length (data img)"
proof -
  have "y * width img + x < Suc y * width img" using assms(2) by simp
  also have "\<dots> \<le> height img * width img"
    using assms(3) by (intro mult_le_mono1) simp
  finally have "y * width img + x < width img * height img" by (simp add: mult.commute)
  then show ?thesis using assms(1) by (simp add: wf_bitmap_def pixel_index_def)
qed



subsection \<open>The double nearest to a square root\<close>

lemma binade_bounds: "0 < n \<Longrightarrow> 4 ^ binade n \<le> n \<and> n < 4 * 4 ^ binade n"
proof (induction n rule: binade.induct)
  case (1 n)
  show ?case
  proof (cases "n < 4")
    case True
    then show ?thesis using 1(2) by (simp add: binade.simps [of n])
  next
    case False
    then have pos: "0 < n div 4" by simp
    have ih: "4 ^ binade (n div 4) \<le> n div 4 \<and> n div 4 < 4 * 4 ^ binade (n div 4)"
      using 1(1) [OF False pos] .
    have b: "binade n = Suc (binade (n div 4))" using False by (simp add: binade.simps [of n])
    show ?thesis using ih unfolding b by auto
  qed
qed

lemma round_eqI:
  fixes x :: real
  assumes "real_of_int m - 1 / 2 \<le> x" "x < real_of_int m + 1 / 2"
  shows "round x = m"
  unfolding round_def using assms by (intro floor_unique) simp_all

lemma Math_sqrt_eval:
  fixes m :: int
  assumes "0 < n" "0 < m"
    and "(2 * m - 1)\<^sup>2 \<le> 4 * (int n * 4 ^ (52 - binade n))"
    and "4 * (int n * 4 ^ (52 - binade n)) < (2 * m + 1)\<^sup>2"
  shows "Math_sqrt n = real_of_int m / 2 ^ (52 - binade n)"
proof -
  let ?k = "52 - binade n"
  let ?y = "sqrt (real n) * 2 ^ ?k"
  have y: "?y = sqrt (real n * 4 ^ ?k)"
    by (simp add: real_sqrt_mult real_sqrt_power power2_eq_square [symmetric] flip: power_mult)
  have lo: "(real_of_int m - 1 / 2)\<^sup>2 \<le> real n * 4 ^ ?k"
  proof -
    have "real_of_int ((2 * m - 1)\<^sup>2) \<le> real_of_int (4 * (int n * 4 ^ ?k))"
      using assms(3) by (simp only: of_int_le_iff)
    then show ?thesis by (simp add: power2_eq_square field_simps)
  qed
  have hi: "real n * 4 ^ ?k < (real_of_int m + 1 / 2)\<^sup>2"
  proof -
    have "real_of_int (4 * (int n * 4 ^ ?k)) < real_of_int ((2 * m + 1)\<^sup>2)"
      using assms(4) by (simp only: of_int_less_iff)
    then show ?thesis by (simp add: power2_eq_square field_simps)
  qed
  have "real_of_int m - 1 / 2 \<le> ?y" unfolding y by (rule real_le_rsqrt [OF lo])
  moreover have "?y < real_of_int m + 1 / 2"
    unfolding y using assms(2) by (intro real_less_lsqrt hi) simp_all
  ultimately have "round ?y = m" by (rule round_eqI)
  then show ?thesis using assms(1) by (simp add: Math_sqrt_def)
qed

lemma Math_sqrt_nearest:
  assumes "0 < n"
  shows "\<bar>Math_sqrt n - sqrt (real n)\<bar> \<le> 1 / 2 / 2 ^ (52 - binade n)"
proof -
  let ?k = "52 - binade n"
  let ?y = "sqrt (real n) * 2 ^ ?k"
  have "\<bar>real_of_int (round ?y) - ?y\<bar> \<le> 1 / 2" by (rule of_int_round_abs_le)
  then have "\<bar>real_of_int (round ?y) - ?y\<bar> / 2 ^ ?k \<le> 1 / 2 / 2 ^ ?k"
    by (intro divide_right_mono) simp_all
  moreover have "(real_of_int (round ?y) - ?y) / 2 ^ ?k = Math_sqrt n - sqrt (real n)"
    using assms by (simp add: Math_sqrt_def diff_divide_distrib)
  then have "\<bar>Math_sqrt n - sqrt (real n)\<bar> = \<bar>(real_of_int (round ?y) - ?y) / 2 ^ ?k\<bar>"
    by (rule arg_cong [OF sym])
  then have "\<bar>real_of_int (round ?y) - ?y\<bar> / 2 ^ ?k = \<bar>Math_sqrt n - sqrt (real n)\<bar>"
    by simp
  ultimately show ?thesis by simp
qed

lemma Math_sqrt_significand:
  assumes "0 < n" "n < 4 ^ 53"
  shows "2 ^ 52 \<le> round (sqrt (real n) * 2 ^ (52 - binade n))"
    and "round (sqrt (real n) * 2 ^ (52 - binade n)) \<le> 2 ^ 53"
proof -
  let ?e = "binade n"
  have bnd: "4 ^ ?e \<le> n" "n < 4 * 4 ^ ?e" using binade_bounds [OF assms(1)] by simp_all
  have "(4::nat) ^ ?e < 4 ^ 53" using bnd(1) assms(2) by (rule le_less_trans)
  then have e: "?e < 53" by (simp only: power_strict_increasing_iff)
  have lo: "2 ^ ?e \<le> sqrt (real n)"
  proof (rule real_le_rsqrt)
    have "real (4 ^ ?e) \<le> real n" using bnd(1) by (simp only: of_nat_le_iff)
    then show "(2 ^ ?e)\<^sup>2 \<le> real n" by (simp add: power2_eq_square power_mult_distrib [symmetric])
  qed
  have "real n \<le> real (4 * 4 ^ ?e)" using bnd(2) by (simp only: of_nat_le_iff)
  then have sq: "real n \<le> (2 * 2 ^ ?e)\<^sup>2"
    by (simp add: power2_eq_square power_mult_distrib [symmetric])
  have hi: "sqrt (real n) \<le> 2 * 2 ^ ?e"
    by (rule real_le_lsqrt) (use sq in simp_all)
  have p: "(2::real) ^ ?e * 2 ^ (52 - ?e) = 2 ^ 52"
    using e by (simp add: power_add [symmetric])
  have "real_of_int (2 ^ 52) \<le> sqrt (real n) * 2 ^ (52 - ?e)"
    using mult_right_mono [OF lo, of "2 ^ (52 - ?e)"] p by simp
  then have "round (real_of_int (2 ^ 52)) \<le> round (sqrt (real n) * 2 ^ (52 - ?e))"
    by (rule round_mono)
  then show "2 ^ 52 \<le> round (sqrt (real n) * 2 ^ (52 - ?e))"
    by (simp only: round_of_int)
  have "sqrt (real n) * 2 ^ (52 - ?e) \<le> real_of_int (2 ^ 53)"
    using mult_right_mono [OF hi, of "2 ^ (52 - ?e)"] p by (simp add: mult.assoc)
  then have "round (sqrt (real n) * 2 ^ (52 - ?e)) \<le> round (real_of_int (2 ^ 53))"
    by (rule round_mono)
  then show "round (sqrt (real n) * 2 ^ (52 - ?e)) \<le> 2 ^ 53"
    by (simp only: round_of_int)
qed

lemma binade_3: "binade 3 = 0" by (simp add: binade.simps)


lemma Math_sqrt_3: "Math_sqrt 3 = sqrt3_double"
  using Math_sqrt_eval [of 3 7800463371553962] by (simp add: binade_3 sqrt3_double_def)


lemma sqrt3_double_below: "sqrt3_double < sqrt 3"
proof -
  have "(7800463371553962 / 2 ^ 52 :: real)\<^sup>2 < 3" by (simp add: power2_eq_square)
  then have "7800463371553962 / 2 ^ 52 < sqrt 3" by (intro real_less_rsqrt)
  then show ?thesis by (simp add: sqrt3_double_def)
qed

subsection \<open>The image the filter resolves to\<close>








subsection \<open>The filter on the sample bitmaps\<close>









lemma near_red_pixel_filter:
  "sqrt3_double < sqrt 3 \<and>
   filterBackgroundColor canvas_available near_red_pixel (Some sqrt3_double) =
     Inr \<lparr>width = 1, height = 1, data = [0, 0, 0, 0]\<rparr>"
  by (simp add: sqrt3_double_below filterBackgroundColor_def canvas_available_def
      near_red_pixel_def getImageData_def filter_loop.simps filter_pixel_def distance_def
      BACKGROUND_COLOR_def Math_sqrt_3 canvas_roundtrip_def channel_def upt_rec)

subsection \<open>Threshold and frame of the filter\<close>






section \<open>Properties of the content-bounds analysis\<close>

lemma finite_content_of: "finite (content_of d w ps)"
  by (simp add: content_of_def)

lemma content_of_Nil: "content_of d w [] = {}"
  by (simp add: content_of_def)

lemma content_of_Cons:
  "content_of d w (p # ps) =
     (if is_content d ((snd p * w + fst p) * 4) then insert p (content_of d w ps)
      else content_of d w ps)"
  by (auto simp add: content_of_def)

lemma Min_insert_min:
  fixes a :: nat
  assumes "finite S"
  shows "Min (insert (if x < a then x else a) S) = Min (insert a (insert x S))"
proof -
  have eq: "(if x < a then x else a) = min a x" by (simp add: min_def)
  show ?thesis
  proof (cases "S = {}")
    case True
    then show ?thesis by (simp add: eq)
  next
    case False
    then show ?thesis using assms by (simp add: eq min.assoc)
  qed
qed

lemma Max_insert_max:
  fixes a :: nat
  assumes "finite S"
  shows "Max (insert (if x > a then x else a) S) = Max (insert a (insert x S))"
proof -
  have eq: "(if x > a then x else a) = max a x" by (simp add: max_def)
  show ?thesis
  proof (cases "S = {}")
    case True
    then show ?thesis by (simp add: eq)
  next
    case False
    then show ?thesis using assms by (simp add: eq max.assoc)
  qed
qed

text \<open>The running variables after any list of pixels, from any start.\<close>

lemma fold_visit:
  "fold (\<lambda>p. visit d w (snd p) (fst p)) ps (x0, y0, x1, y1) =
     (Min (insert x0 (fst ` content_of d w ps)), Min (insert y0 (snd ` content_of d w ps)),
      Max (insert x1 (fst ` content_of d w ps)), Max (insert y1 (snd ` content_of d w ps)))"
proof (induction ps arbitrary: x0 y0 x1 y1)
  case Nil
  then show ?case by (simp add: content_of_Nil)
next
  case (Cons p ps)
  have fin: "finite (fst ` content_of d w ps)" "finite (snd ` content_of d w ps)"
    by (simp_all add: finite_content_of)
  show ?case
  proof (cases "is_content d ((snd p * w + fst p) * 4)")
    case True
    then show ?thesis
      by (simp add: Cons.IH content_of_Cons Min_insert_min [OF fin(1)] Min_insert_min [OF fin(2)]
          Max_insert_max [OF fin(1)] Max_insert_max [OF fin(2)])
  next
    case False
    then show ?thesis by (simp add: Cons.IH content_of_Cons)
  qed
qed

lemma set_pixels: "set (pixels w h) = {p. fst p < w \<and> snd p < h}"
  by (auto simp add: pixels_def)

lemma fold_concat_map:
  "fold f (concat (map row ys)) s = fold (\<lambda>y. fold f (row y)) ys s"
  by (induction ys arbitrary: s) simp_all

lemma scan_fold_pixels:
  "scan d w h = fold (\<lambda>p. visit d w (snd p) (fst p)) (pixels w h) (w, h, 0, 0)"
  by (simp add: scan_def pixels_def fold_concat_map fold_map comp_def)

lemma content_of_pixels:
  "content_of d w (pixels w h) =
     {p. fst p < w \<and> snd p < h \<and> is_content d ((snd p * w + fst p) * 4)}"
  by (auto simp add: content_of_def set_pixels)

lemma scan_eq:
  "scan d w h =
     (Min (insert w (fst ` content_of d w (pixels w h))),
      Min (insert h (snd ` content_of d w (pixels w h))),
      Max (insert 0 (fst ` content_of d w (pixels w h))),
      Max (insert 0 (snd ` content_of d w (pixels w h))))"
  by (simp add: scan_fold_pixels fold_visit)

lemma scan_empty:
  assumes "content_of d w (pixels w h) = {}"
  shows "scan d w h = (w, h, 0, 0)"
  by (simp add: scan_eq assms)

lemma scan_nonempty:
  assumes "content_of d w (pixels w h) \<noteq> {}"
  shows "scan d w h =
     (Min (fst ` content_of d w (pixels w h)), Min (snd ` content_of d w (pixels w h)),
      Max (fst ` content_of d w (pixels w h)), Max (snd ` content_of d w (pixels w h)))"
proof -
  let ?C = "content_of d w (pixels w h)"
  have fin: "finite (fst ` ?C)" "finite (snd ` ?C)" by (simp_all add: finite_content_of)
  have ne: "fst ` ?C \<noteq> {}" "snd ` ?C \<noteq> {}" using assms by simp_all
  have bnd: "\<forall>x \<in> fst ` ?C. x < w" "\<forall>y \<in> snd ` ?C. y < h"
    by (auto simp add: content_of_pixels)
  have "Min (fst ` ?C) \<in> fst ` ?C" "Min (snd ` ?C) \<in> snd ` ?C"
    by (rule Min_in [OF fin(1) ne(1)]) (rule Min_in [OF fin(2) ne(2)])
  then have "Min (fst ` ?C) < w" "Min (snd ` ?C) < h"
    using bnd by blast+
  then have "min w (Min (fst ` ?C)) = Min (fst ` ?C)" "min h (Min (snd ` ?C)) = Min (snd ` ?C)"
    by (simp_all add: min_def)
  then show ?thesis using fin ne by (simp add: scan_eq)
qed

lemma scan_range:
  assumes "scan d w h = (x0, y0, x1, y1)"
  shows "(0 < w \<longrightarrow> x1 < w) \<and> (0 < h \<longrightarrow> y1 < h)"
proof -
  let ?C = "content_of d w (pixels w h)"
  have fin: "finite (insert 0 (fst ` ?C))" "finite (insert 0 (snd ` ?C))"
    by (simp_all add: finite_content_of)
  have x1: "x1 = Max (insert 0 (fst ` ?C))" and y1: "y1 = Max (insert 0 (snd ` ?C))"
    using assms by (simp_all add: scan_eq)
  have "x1 \<in> insert 0 (fst ` ?C)" unfolding x1 by (rule Max_in [OF fin(1)]) simp
  moreover have "y1 \<in> insert 0 (snd ` ?C)" unfolding y1 by (rule Max_in [OF fin(2)]) simp
  ultimately show ?thesis by (auto simp add: content_of_pixels)
qed

lemma content_of_wf:
  assumes "wf_bitmap img"
  shows "content_of (data img) (width img) (pixels (width img) (height img)) = content img"
proof -
  have "is_content (data img) ((y * width img + x) * 4) \<longleftrightarrow> 10 < uint (alpha img x y)"
    if "x < width img" "y < height img" for x y
    using pixel_in_range [OF assms that]
    by (simp add: is_content_def alpha_def pixel_index_def alphaThreshold_def)
  then show ?thesis by (auto simp add: content_of_pixels content_def)
qed

lemma offset_bound:
  fixes x0 x1 :: int and w :: nat
  assumes "0 \<le> x0" "x0 \<le> x1" "x1 < int w"
  shows "- (1 / 2) \<le> (real_of_int x0 + real_of_int (x1 - x0 + 1) / 2 - real w / 2) / real w"
    and "(real_of_int x0 + real_of_int (x1 - x0 + 1) / 2 - real w / 2) / real w \<le> 1 / 2"
proof -
  have w: "0 < real w" using assms by simp
  have a: "0 \<le> real_of_int x0" "real_of_int x0 \<le> real_of_int x1" "real_of_int x1 + 1 \<le> real w"
    using assms by linarith+
  show "- (1 / 2) \<le> (real_of_int x0 + real_of_int (x1 - x0 + 1) / 2 - real w / 2) / real w"
    using w a by (simp add: field_simps)
  show "(real_of_int x0 + real_of_int (x1 - x0 + 1) / 2 - real w / 2) / real w \<le> 1 / 2"
    using w a by (simp add: field_simps)
qed

text \<open>The paths through \<^verbatim>\<open>analyzeContentBounds\<close>.\<close>

lemma analyze_no_context:
  "\<not> has_context cv \<Longrightarrow> analyzeContentBounds cv img = whole_image (width img) (height img)"
  by (simp add: analyzeContentBounds_def Let_def)

lemma analyze_unreadable:
  "getImageData cv img = Inl e \<Longrightarrow>
     analyzeContentBounds cv img = whole_image (width img) (height img)"
  by (simp add: analyzeContentBounds_def Let_def)

lemma analyze_readable:
  assumes "has_context cv" "getImageData cv img = Inr d"
    "scan d (width img) (height img) = (x0, y0, x1, y1)"
  shows "analyzeContentBounds cv img =
     (if x0 > x1 \<or> y0 > y1 then whole_image (width img) (height img)
      else bounds_record (width img) (height img) (int x0) (int y0) (int x1) (int y1))"
  using assms by (simp add: analyzeContentBounds_def Let_def)

lemma getImageData_cases:
  obtains e where "getImageData cv img = Inl e"
  | "getImageData cv img = Inr (data img)" "0 < width img" "0 < height img" "origin_clean cv"
proof (cases "width img = 0 \<or> height img = 0 \<or> \<not> origin_clean cv")
  case True
  then have "\<exists>e. getImageData cv img = Inl e" by (auto simp add: getImageData_def)
  then show ?thesis using that(1) by blast
next
  case False
  then show ?thesis using that(2) by (simp add: getImageData_def)
qed

lemma analyze_cases:
  obtains (fallback) "analyzeContentBounds cv img = whole_image (width img) (height img)"
  | (found) x0 y0 x1 y1 where "has_context cv" "origin_clean cv" "0 < width img" "0 < height img"
      "scan (data img) (width img) (height img) = (x0, y0, x1, y1)"
      "x0 \<le> x1" "y0 \<le> y1"
      "analyzeContentBounds cv img =
         bounds_record (width img) (height img) (int x0) (int y0) (int x1) (int y1)"
proof (cases "has_context cv")
  case False
  then show ?thesis using fallback analyze_no_context by blast
next
  case ctx: True
  show ?thesis
  proof (cases rule: getImageData_cases [of cv img])
    case (1 e)
    then show ?thesis using fallback analyze_unreadable by blast
  next
    case 2
    obtain x0 y0 x1 y1 where s: "scan (data img) (width img) (height img) = (x0, y0, x1, y1)"
      by (cases "scan (data img) (width img) (height img)") auto
    show ?thesis
    proof (cases "x0 > x1 \<or> y0 > y1")
      case True
      then show ?thesis using fallback analyze_readable [OF ctx 2(1) s] by simp
    next
      case False
      then show ?thesis using found [OF ctx 2(4) 2(2) 2(3) s] analyze_readable [OF ctx 2(1) s]
        by simp
    qed
  qed
qed

lemma upt_0_3: "[0..<3] = [0, 1, 2]" and upt_0_2: "[0..<2] = [0, 1]"
  by (simp_all add: upt_rec)

text \<open>The analysis of the sample bitmaps, computed.\<close>

lemma six_pixels_bounds:
  "analyzeContentBounds canvas_available six_pixels =
     \<lparr>minX = 1, minY = 0, maxX = 2, maxY = 1, contentWidth = 2, contentHeight = 2,
      centerOffsetX = 1 / 6, centerOffsetY = 0, contentRatioX = 2 / 3, contentRatioY = 1\<rparr>"
  by (simp add: analyzeContentBounds_def canvas_available_def six_pixels_def getImageData_def
      scan_def is_content_def alphaThreshold_def bounds_record_def Let_def upt_0_3 upt_0_2)

lemma transparent_pixel_bounds:
  "analyzeContentBounds canvas_available transparent_pixel =
     \<lparr>minX = 0, minY = 0, maxX = 1, maxY = 1, contentWidth = 1, contentHeight = 1,
      centerOffsetX = 0, centerOffsetY = 0, contentRatioX = 1, contentRatioY = 1\<rparr>"
  by (simp add: analyzeContentBounds_def canvas_available_def transparent_pixel_def
      getImageData_def scan_def is_content_def alphaThreshold_def whole_image_def Let_def)

lemma six_pixels_wf: "wf_bitmap six_pixels \<and> 0 < width six_pixels \<and> 0 < height six_pixels"
  by (simp add: wf_bitmap_def six_pixels_def)

lemma six_pixels_content: "(1, 0) \<in> content six_pixels"
  by (simp add: content_def six_pixels_def alpha_def pixel_index_def alphaThreshold_def)

text \<open>
  Claim C2. For a bitmap with at least one pixel of alpha above 10 whose pixels can be
  read back, \<^verbatim>\<open>analyzeContentBounds\<close> returns the least and greatest column and row
  among exactly the pixels with alpha above 10, \<open>contentWidth = maxX - minX + 1\<close>,
  \<open>contentHeight = maxY - minY + 1\<close>,
  \<open>centerOffsetX = ((minX + maxX + 1) / 2 - width / 2) / width\<close> and the same for Y,
  \<open>contentRatioX = contentWidth / width\<close> and the same for Y.
\<close>

theorem analyzeContentBounds_content:
  assumes "has_context cv" and "origin_clean cv" and "wf_bitmap img" and "content img \<noteq> {}"
  shows "analyzeContentBounds cv img =
     (let x0 = int (Min (fst ` content img)); x1 = int (Max (fst ` content img));
          y0 = int (Min (snd ` content img)); y1 = int (Max (snd ` content img))
      in \<lparr>minX = x0, minY = y0, maxX = x1, maxY = y1,
          contentWidth = x1 - x0 + 1, contentHeight = y1 - y0 + 1,
          centerOffsetX = (real_of_int (x0 + x1 + 1) / 2 - real (width img) / 2) / real (width img),
          centerOffsetY = (real_of_int (y0 + y1 + 1) / 2 - real (height img) / 2) / real (height img),
          contentRatioX = real_of_int (x1 - x0 + 1) / real (width img),
          contentRatioY = real_of_int (y1 - y0 + 1) / real (height img)\<rparr>)"
proof -
  let ?C = "content img"
  have pos: "0 < width img" "0 < height img"
    using assms(4) by (auto simp add: content_def)
  have gid: "getImageData cv img = Inr (data img)"
    using pos assms(2) by (simp add: getImageData_def)
  have C: "content_of (data img) (width img) (pixels (width img) (height img)) = ?C"
    by (rule content_of_wf [OF assms(3)])
  have s: "scan (data img) (width img) (height img) =
      (Min (fst ` ?C), Min (snd ` ?C), Max (fst ` ?C), Max (snd ` ?C))"
    using scan_nonempty [of "data img" "width img" "height img"] assms(4) by (simp add: C)
  have fin: "finite (fst ` ?C)" "finite (snd ` ?C)"
    using finite_content_of [of "data img" "width img" "pixels (width img) (height img)"]
    by (simp_all add: C)
  have ne: "fst ` ?C \<noteq> {}" "snd ` ?C \<noteq> {}" using assms(4) by simp_all
  have le: "Min (fst ` ?C) \<le> Max (fst ` ?C)" "Min (snd ` ?C) \<le> Max (snd ` ?C)"
    by (rule Min_le [OF fin(1) Max_in [OF fin(1) ne(1)]])
       (rule Min_le [OF fin(2) Max_in [OF fin(2) ne(2)]])
  have "analyzeContentBounds cv img =
      bounds_record (width img) (height img) (int (Min (fst ` ?C))) (int (Min (snd ` ?C)))
        (int (Max (fst ` ?C))) (int (Max (snd ` ?C)))"
    using analyze_readable [OF assms(1) gid s] le by simp
  then show ?thesis
    by (simp add: bounds_record_def Let_def field_simps)
qed

theorem analyzeContentBounds_content_witness:
  "has_context canvas_available \<and> origin_clean canvas_available \<and> wf_bitmap six_pixels \<and>
   content six_pixels \<noteq> {} \<and>
   Min (fst ` content six_pixels) = 1 \<and> Max (fst ` content six_pixels) = 2 \<and>
   Min (snd ` content six_pixels) = 0 \<and> Max (snd ` content six_pixels) = 1 \<and>
   analyzeContentBounds canvas_available six_pixels =
     \<lparr>minX = 1, minY = 0, maxX = 2, maxY = 1, contentWidth = 2, contentHeight = 2,
      centerOffsetX = 1 / 6, centerOffsetY = 0, contentRatioX = 2 / 3, contentRatioY = 1\<rparr>"
proof -
  have cv: "has_context canvas_available" "origin_clean canvas_available"
    by (simp_all add: canvas_available_def)
  have wf: "wf_bitmap six_pixels" using six_pixels_wf by simp
  have ne: "content six_pixels \<noteq> {}" using six_pixels_content by blast
  note inst = analyzeContentBounds_content [OF cv wf ne]
  have "minX (analyzeContentBounds canvas_available six_pixels) = int (Min (fst ` content six_pixels))"
    "maxX (analyzeContentBounds canvas_available six_pixels) = int (Max (fst ` content six_pixels))"
    "minY (analyzeContentBounds canvas_available six_pixels) = int (Min (snd ` content six_pixels))"
    "maxY (analyzeContentBounds canvas_available six_pixels) = int (Max (snd ` content six_pixels))"
    by (simp_all add: inst Let_def)
  then have "Min (fst ` content six_pixels) = 1" "Max (fst ` content six_pixels) = 2"
    "Min (snd ` content six_pixels) = 0" "Max (snd ` content six_pixels) = 1"
    by (simp_all add: six_pixels_bounds)
  then show ?thesis using cv wf ne six_pixels_bounds by simp
qed

text \<open>
  Claim C3, as stated: every record returned by \<^verbatim>\<open>analyzeContentBounds\<close>, the
  fallback record included, has \<open>contentWidth = maxX - minX + 1\<close>. For a single
  transparent pixel the fallback record has \<open>minX = 0\<close>, \<open>maxX = 1\<close> and
  \<open>contentWidth = 1\<close>.
\<close>

theorem analyzeContentBounds_fallback_counterexample:
  "contentWidth (analyzeContentBounds canvas_available transparent_pixel) \<noteq>
     maxX (analyzeContentBounds canvas_available transparent_pixel) -
     minX (analyzeContentBounds canvas_available transparent_pixel) + 1"
  by (simp add: transparent_pixel_bounds)

text \<open>
  Claim C3, amended. Every record returned by \<^verbatim>\<open>analyzeContentBounds\<close> other than
  the fallback record has \<open>contentWidth = maxX - minX + 1\<close> and
  \<open>contentHeight = maxY - minY + 1\<close>, with \<open>minX \<le> maxX\<close> and \<open>minY \<le> maxY\<close>
  coordinates of pixels of the bitmap.
\<close>

theorem analyzeContentBounds_derived_dimensions:
  assumes "analyzeContentBounds cv img \<noteq> whole_image (width img) (height img)"
  shows "contentWidth (analyzeContentBounds cv img) =
           maxX (analyzeContentBounds cv img) - minX (analyzeContentBounds cv img) + 1 \<and>
         contentHeight (analyzeContentBounds cv img) =
           maxY (analyzeContentBounds cv img) - minY (analyzeContentBounds cv img) + 1 \<and>
         0 \<le> minX (analyzeContentBounds cv img) \<and>
         minX (analyzeContentBounds cv img) \<le> maxX (analyzeContentBounds cv img) \<and>
         maxX (analyzeContentBounds cv img) < int (width img) \<and>
         0 \<le> minY (analyzeContentBounds cv img) \<and>
         minY (analyzeContentBounds cv img) \<le> maxY (analyzeContentBounds cv img) \<and>
         maxY (analyzeContentBounds cv img) < int (height img)"
proof (cases rule: analyze_cases [of cv img])
  case fallback
  then show ?thesis using assms by simp
next
  case (found x0 y0 x1 y1)
  have "x1 < width img" "y1 < height img"
    using scan_range [OF found(5)] found(3,4) by simp_all
  then show ?thesis using found(6,7)
    by (simp add: found(8) bounds_record_def Let_def)
qed

theorem analyzeContentBounds_derived_dimensions_witness:
  "analyzeContentBounds canvas_available six_pixels \<noteq>
     whole_image (width six_pixels) (height six_pixels) \<and>
   contentWidth (analyzeContentBounds canvas_available six_pixels) = 2 \<and>
   maxX (analyzeContentBounds canvas_available six_pixels) -
     minX (analyzeContentBounds canvas_available six_pixels) + 1 = 2 \<and>
   contentHeight (analyzeContentBounds canvas_available six_pixels) =
     maxY (analyzeContentBounds canvas_available six_pixels) -
     minY (analyzeContentBounds canvas_available six_pixels) + 1"
proof -
  have ne: "analyzeContentBounds canvas_available six_pixels \<noteq>
      whole_image (width six_pixels) (height six_pixels)"
    by (simp add: six_pixels_bounds whole_image_def)
  from analyzeContentBounds_derived_dimensions [OF ne]
  have "contentWidth (analyzeContentBounds canvas_available six_pixels) =
      maxX (analyzeContentBounds canvas_available six_pixels) -
      minX (analyzeContentBounds canvas_available six_pixels) + 1"
    and "contentHeight (analyzeContentBounds canvas_available six_pixels) =
      maxY (analyzeContentBounds canvas_available six_pixels) -
      minY (analyzeContentBounds canvas_available six_pixels) + 1"
    by simp_all
  moreover have "contentWidth (analyzeContentBounds canvas_available six_pixels) = 2"
    by (simp add: six_pixels_bounds)
  ultimately show ?thesis using ne by simp
qed

text \<open>
  Claim C4. For a bitmap in which every pixel has alpha at most 10,
  \<^verbatim>\<open>analyzeContentBounds\<close> returns exactly the record
  \<^verbatim>\<open>{minX: 0, minY: 0, maxX: width, maxY: height, contentWidth: width,
  contentHeight: height, centerOffsetX: 0, centerOffsetY: 0, contentRatioX: 1,
  contentRatioY: 1}\<close>; it is a value of the function, not an error.
\<close>

theorem analyzeContentBounds_no_content:
  assumes "\<forall>x y. x < width img \<and> y < height img \<longrightarrow> uint (alpha img x y) \<le> 10"
  shows "analyzeContentBounds cv img =
     \<lparr>minX = 0, minY = 0, maxX = int (width img), maxY = int (height img),
      contentWidth = int (width img), contentHeight = int (height img),
      centerOffsetX = 0, centerOffsetY = 0, contentRatioX = 1, contentRatioY = 1\<rparr>"
proof (cases rule: analyze_cases [of cv img])
  case fallback
  then show ?thesis by (simp add: whole_image_def)
next
  case (found x0 y0 x1 y1)
  have "\<not> is_content (data img) ((y * width img + x) * 4)"
    if "x < width img" "y < height img" for x y
  proof -
    have "uint (data img ! ((y * width img + x) * 4 + 3)) \<le> 10"
      using assms that unfolding alpha_def pixel_index_def by blast
    then show ?thesis by (simp add: is_content_def alphaThreshold_def)
  qed
  then have "content_of (data img) (width img) (pixels (width img) (height img)) = {}"
    by (auto simp add: content_of_pixels)
  then have "scan (data img) (width img) (height img) = (width img, height img, 0, 0)"
    by (rule scan_empty)
  then have "x0 = width img" "x1 = 0" using found(5) by simp_all
  then show ?thesis using found(3,6) by simp
qed

theorem analyzeContentBounds_no_content_witness:
  "width faint_pixels = 2 \<and> height faint_pixels = 1 \<and>
   uint (alpha faint_pixels 0 0) = 10 \<and> uint (alpha faint_pixels 1 0) = 0 \<and>
   analyzeContentBounds canvas_available faint_pixels =
     \<lparr>minX = 0, minY = 0, maxX = 2, maxY = 1, contentWidth = 2, contentHeight = 1,
      centerOffsetX = 0, centerOffsetY = 0, contentRatioX = 1, contentRatioY = 1\<rparr>"
proof -
  have faint: "\<forall>x y. x < width faint_pixels \<and> y < height faint_pixels \<longrightarrow>
      uint (alpha faint_pixels x y) \<le> 10"
  proof (intro allI impI)
    fix x y
    assume "x < width faint_pixels \<and> y < height faint_pixels"
    then have "(x = 0 \<or> x = 1) \<and> y = 0" by (auto simp add: faint_pixels_def)
    then show "uint (alpha faint_pixels x y) \<le> 10"
      by (auto simp add: faint_pixels_def alpha_def pixel_index_def)
  qed
  have px: "uint (alpha faint_pixels 0 0) = 10" "uint (alpha faint_pixels 1 0) = 0"
    by (simp_all add: faint_pixels_def alpha_def pixel_index_def)
  from analyzeContentBounds_no_content [OF faint, of canvas_available]
  show ?thesis using px by (simp add: faint_pixels_def)
qed

text \<open>
  Claim C7. For every bitmap of positive width and height, the record returned by
  \<^verbatim>\<open>analyzeContentBounds\<close> has \<open>centerOffsetX\<close> and \<open>centerOffsetY\<close> in the closed
  interval from -0.5 to 0.5.
\<close>

theorem analyzeContentBounds_center_offset_range:
  assumes "0 < width img" and "0 < height img"
  shows "- (1 / 2) \<le> centerOffsetX (analyzeContentBounds cv img) \<and>
         centerOffsetX (analyzeContentBounds cv img) \<le> 1 / 2 \<and>
         - (1 / 2) \<le> centerOffsetY (analyzeContentBounds cv img) \<and>
         centerOffsetY (analyzeContentBounds cv img) \<le> 1 / 2"
proof (cases rule: analyze_cases [of cv img])
  case fallback
  then show ?thesis by (simp add: whole_image_def)
next
  case (found x0 y0 x1 y1)
  have "x1 < width img" "y1 < height img"
    using scan_range [OF found(5)] assms by simp_all
  then have bx: "0 \<le> int x0" "int x0 \<le> int x1" "int x1 < int (width img)"
    and bY: "0 \<le> int y0" "int y0 \<le> int y1" "int y1 < int (height img)"
    using found(6,7) by simp_all
  show ?thesis
    using offset_bound [OF bx] offset_bound [OF bY]
    by (simp add: found(8) bounds_record_def Let_def)
qed

theorem analyzeContentBounds_center_offset_range_witness:
  "0 < width six_pixels \<and> 0 < height six_pixels \<and>
   centerOffsetX (analyzeContentBounds canvas_available six_pixels) = 1 / 6 \<and>
   - (1 / 2) \<le> centerOffsetX (analyzeContentBounds canvas_available six_pixels) \<and>
   centerOffsetX (analyzeContentBounds canvas_available six_pixels) \<le> 1 / 2 \<and>
   - (1 / 2) \<le> centerOffsetY (analyzeContentBounds canvas_available six_pixels) \<and>
   centerOffsetY (analyzeContentBounds canvas_available six_pixels) \<le> 1 / 2"
proof -
  have pos: "0 < width six_pixels" "0 < height six_pixels"
    using six_pixels_wf by simp_all
  have "centerOffsetX (analyzeContentBounds canvas_available six_pixels) = 1 / 6"
    by (simp add: six_pixels_bounds)
  then show ?thesis
    using pos analyzeContentBounds_center_offset_range [OF pos, of canvas_available] by simp
qed

section \<open>Properties of the loader and the caches\<close>

subsection \<open>The ways through the loader\<close>

lemma loadImageDirect_success:
  "fetch w src = Some img \<Longrightarrow>
   loadImageDirect w src st =
     (Inr img, st\<lparr>imageCache := (imageCache st)(src \<mapsto> img),
                  requests := requests st @ [src],
                  notifications := notifications st @ imageLoadCallbacks st\<rparr>)"
  by (simp add: loadImageDirect_def notifyImageLoaded_def Let_def)

lemma loadImageDirect_failure:
  "fetch w src = None \<Longrightarrow>
   loadImageDirect w src st = (Inl (LoadError src), st\<lparr>requests := requests st @ [src]\<rparr>)"
  by (simp add: loadImageDirect_def Let_def)

lemma checkWebPSupport_state:
  "checkWebPSupport w st = (supported, st') \<Longrightarrow> st' = st\<lparr>webpSupported := Some supported\<rparr>"
  by (auto simp add: checkWebPSupport_def split: option.splits probe_result.splits)

lemma checkWebPSupport_cached:
  "webpSupported st = Some supported \<Longrightarrow> checkWebPSupport w st = (supported, st)"
  by (simp add: checkWebPSupport_def)

lemma issued_loadImageDirect: "issued st (snd (loadImageDirect w src st)) = [src]"
  by (cases "fetch w src") (simp_all add: loadImageDirect_failure loadImageDirect_success issued_def)

lemma loadImage_hit:
  "imageCache st src = Some img \<Longrightarrow> loadImage w src st = (Inr img, st)"
  by (simp add: loadImage_def)

lemma loadImage_no_alternate:
  assumes "imageCache st src = None" "getWebPPath src = None"
  shows "loadImage w src st = loadImageDirect w src st"
  using assms by (simp add: loadImage_def)

lemma loadImage_unsupported:
  assumes "imageCache st src = None" "getWebPPath src = Some p"
    "checkWebPSupport w st = (False, st1)"
  shows "loadImage w src st = loadImageDirect w src st1"
  using assms by (simp add: loadImage_def)

lemma loadImage_alternate:
  assumes "imageCache st src = None" "getWebPPath src = Some p"
    "checkWebPSupport w st = (True, st1)" "fetch w p = Some img"
  shows "loadImage w src st =
     (Inr img, st1\<lparr>imageCache := (imageCache st1)(p \<mapsto> img, src \<mapsto> img),
                  requests := requests st1 @ [p],
                  notifications := notifications st1 @ imageLoadCallbacks st1\<rparr>)"
  using assms by (simp add: loadImage_def loadImageDirect_success)

lemma loadImage_fallback:
  assumes "imageCache st src = None" "getWebPPath src = Some p"
    "checkWebPSupport w st = (True, st1)" "fetch w p = None"
  shows "loadImage w src st = loadImageDirect w src (st1\<lparr>requests := requests st1 @ [p]\<rparr>)"
  using assms by (simp add: loadImage_def loadImageDirect_failure)

text \<open>
  A call of \<^verbatim>\<open>loadImage\<close> takes one of five ways: the cache holds the image; the path
  has no WebP sibling; WebP is not supported; the WebP sibling loads; the WebP sibling
  fails and the path itself is requested.
\<close>

lemma loadImage_cases:
  obtains (hit) img where "imageCache st src = Some img" "loadImage w src st = (Inr img, st)"
  | (direct) "imageCache st src = None" "getWebPPath src = None"
      "loadImage w src st = loadImageDirect w src st"
  | (unsupported) p st1 where "imageCache st src = None" "getWebPPath src = Some p"
      "checkWebPSupport w st = (False, st1)" "st1 = st\<lparr>webpSupported := Some False\<rparr>"
      "loadImage w src st = loadImageDirect w src st1"
  | (alternate) p img st1 where "imageCache st src = None" "getWebPPath src = Some p"
      "checkWebPSupport w st = (True, st1)" "st1 = st\<lparr>webpSupported := Some True\<rparr>"
      "fetch w p = Some img"
      "loadImage w src st =
         (Inr img, st1\<lparr>imageCache := (imageCache st1)(p \<mapsto> img, src \<mapsto> img),
                      requests := requests st1 @ [p],
                      notifications := notifications st1 @ imageLoadCallbacks st1\<rparr>)"
  | (fallback) p st1 where "imageCache st src = None" "getWebPPath src = Some p"
      "checkWebPSupport w st = (True, st1)" "st1 = st\<lparr>webpSupported := Some True\<rparr>"
      "fetch w p = None"
      "loadImage w src st = loadImageDirect w src (st1\<lparr>requests := requests st1 @ [p]\<rparr>)"
proof (cases "imageCache st src")
  case (Some img)
  then show ?thesis using hit loadImage_hit by blast
next
  case miss: None
  show ?thesis
  proof (cases "getWebPPath src")
    case None
    then show ?thesis using direct miss loadImage_no_alternate by blast
  next
    case (Some p)
    obtain supported st1 where c: "checkWebPSupport w st = (supported, st1)"
      by (cases "checkWebPSupport w st") auto
    note s1 = checkWebPSupport_state [OF c]
    show ?thesis
    proof (cases supported)
      case False
      then show ?thesis
        using unsupported [of p st1] miss Some c s1 loadImage_unsupported [OF miss Some] by auto
    next
      case True
      show ?thesis
      proof (cases "fetch w p")
        case None
        then show ?thesis
          using fallback [of p st1] miss Some c s1 True loadImage_fallback [OF miss Some] by auto
      next
        case (Some img)
        then show ?thesis
          using alternate [of p st1 img] miss \<open>getWebPPath src = Some p\<close> c s1 True
            loadImage_alternate [OF miss \<open>getWebPPath src = Some p\<close>] by auto
      qed
    qed
  qed
qed

lemma loadImage_cached_after:
  assumes "loadImage w src st = (Inr img, st')"
  shows "imageCache st' src = Some img"
proof (cases rule: loadImage_cases [of st src w])
  case (hit img')
  then show ?thesis using assms by auto
next
  case direct
  then show ?thesis using assms
    by (cases "fetch w src") (auto simp add: loadImageDirect_failure loadImageDirect_success)
next
  case (unsupported p st1)
  then show ?thesis using assms
    by (cases "fetch w src") (auto simp add: loadImageDirect_failure loadImageDirect_success)
next
  case (alternate p img' st1)
  then show ?thesis using assms by auto
next
  case (fallback p st1)
  then show ?thesis using assms
    by (cases "fetch w src") (auto simp add: loadImageDirect_failure loadImageDirect_success)
qed

lemma loadImage_miss_issues:
  assumes "imageCache st src = None"
  shows "\<exists>u us. issued st (snd (loadImage w src st)) = u # us \<and> (u = src \<or> getWebPPath src = Some u)"
proof (cases rule: loadImage_cases [of st src w])
  case (hit img)
  then show ?thesis using assms by simp
next
  case direct
  then show ?thesis by (simp add: issued_loadImageDirect)
next
  case (unsupported p st1)
  then show ?thesis using issued_loadImageDirect [of st1 w src] by (simp add: issued_def)
next
  case (alternate p img st1)
  then show ?thesis by (simp add: issued_def)
next
  case (fallback p st1)
  then show ?thesis
    by (cases "fetch w src") (simp_all add: loadImageDirect_failure loadImageDirect_success issued_def)
qed

lemma endsWith_png: "endsWith src ''.png'' \<Longrightarrow> src = take (length src - 4) src @ ''.png''"
proof -
  assume "endsWith src ''.png''"
  then have "drop (length src - 4) src = ''.png''" by (simp add: endsWith_def eval_nat_numeral)
  then show ?thesis using append_take_drop_id [of "length src - 4" src] by simp
qed

lemma getWebPPath_differs: "getWebPPath src = Some p \<Longrightarrow> p \<noteq> src"
proof
  assume a: "getWebPPath src = Some p" and "p = src"
  then have e: "endsWith src ''.png''" and "take (length src - 4) src @ ''.webp'' = src"
    by (auto simp add: getWebPPath_def split: if_splits)
  then have "take (length src - 4) src @ ''.webp'' = take (length src - 4) src @ ''.png''"
    using endsWith_png [OF e] by simp
  then show False by simp
qed

subsection \<open>What the operations leave unchanged\<close>

lemma loadImageDirect_frame:
  "webpSupported (snd (loadImageDirect w src st)) = webpSupported st"
  "contentBoundsCache (snd (loadImageDirect w src st)) = contentBoundsCache st"
  by (cases "fetch w src"; simp add: loadImageDirect_failure loadImageDirect_success)+

lemma loadImage_frame:
  "contentBoundsCache (snd (loadImage w src st)) = contentBoundsCache st"
  "webpSupported st = Some supported \<Longrightarrow> webpSupported (snd (loadImage w src st)) = Some supported"
proof -
  show "contentBoundsCache (snd (loadImage w src st)) = contentBoundsCache st"
    by (cases rule: loadImage_cases [of st src w]) (auto simp add: loadImageDirect_frame)
  assume s: "webpSupported st = Some supported"
  have c: "checkWebPSupport w st = (supported, st)" using s by (rule checkWebPSupport_cached)
  show "webpSupported (snd (loadImage w src st)) = Some supported"
    by (cases rule: loadImage_cases [of st src w]) (use s c in \<open>auto simp add: loadImageDirect_frame\<close>)
qed

lemma loadSpriteImage_frame:
  "contentBoundsCache (snd (loadSpriteImage w cv src applyFilter st)) = contentBoundsCache st"
  "webpSupported st = Some supported \<Longrightarrow>
     webpSupported (snd (loadSpriteImage w cv src applyFilter st)) = Some supported"
proof -
  obtain res st1 where l: "loadImage w src st = (res, st1)" by (cases "loadImage w src st") auto
  have f: "contentBoundsCache st1 = contentBoundsCache st"
    using loadImage_frame(1) [of w src st] l by simp
  show "contentBoundsCache (snd (loadSpriteImage w cv src applyFilter st)) = contentBoundsCache st"
    using l f by (auto simp add: loadSpriteImage_def Let_def split: option.splits sum.splits)
  assume s: "webpSupported st = Some supported"
  have "webpSupported st1 = Some supported" using loadImage_frame(2) [OF s, of w src] l by simp
  then show "webpSupported (snd (loadSpriteImage w cv src applyFilter st)) = Some supported"
    using l s by (auto simp add: loadSpriteImage_def Let_def split: option.splits sum.splits)
qed

lemma exec_webpSupported:
  "webpSupported st = Some supported \<Longrightarrow> webpSupported (exec opn st) = Some supported"
  by (cases opn)
     (auto simp add: onImageLoaded_def unsubscribe_def clearImageCache_def getContentBounds_def
        loadImage_frame loadSpriteImage_frame Let_def split: option.splits)

lemma run_webpSupported:
  "webpSupported st = Some supported \<Longrightarrow> webpSupported (run ops st) = Some supported"
  unfolding run_def by (induction ops arbitrary: st) (simp_all add: exec_webpSupported)

lemma exec_contentBoundsCache:
  "opn \<noteq> ClearImageCache \<Longrightarrow> contentBoundsCache st src = Some bounds \<Longrightarrow>
     contentBoundsCache (exec opn st) src = Some bounds"
  by (cases opn)
     (auto simp add: onImageLoaded_def unsubscribe_def getContentBounds_def
        loadImage_frame loadSpriteImage_frame Let_def split: option.splits)

lemma run_contentBoundsCache:
  "ClearImageCache \<notin> set ops \<Longrightarrow> contentBoundsCache st src = Some bounds \<Longrightarrow>
     contentBoundsCache (run ops st) src = Some bounds"
  unfolding run_def
proof (induction ops arbitrary: st)
  case Nil
  then show ?case by simp
next
  case (Cons opn ops)
  have "opn \<noteq> ClearImageCache" using Cons.prems(1) by auto
  then have "contentBoundsCache (exec opn st) src = Some bounds"
    using Cons.prems(2) by (rule exec_contentBoundsCache)
  then show ?case using Cons.IH Cons.prems(1) by simp
qed

subsection \<open>The loader on the sample networks\<close>

lemma house_webp: "getWebPPath ''house.png'' = Some ''house.webp''"
  by (simp add: getWebPPath_def endsWith_def)

lemma logo_no_webp: "\<not> endsWith ''logo.svg'' ''.png''"
  by (simp add: endsWith_def)

lemma listening_fields:
  "imageCache listening = Map.empty" "imageLoadCallbacks listening = [7, 8]"
  "notifications listening = []" "requests listening = []" "webpSupported listening = None"
  by (simp_all add: listening_def onImageLoaded_def initial_state_def)

lemma load_fallback_sample:
  "loadImage fallback_world ''house.png'' listening =
     (Inr six_pixels,
      listening\<lparr>imageCache := [''house.png'' \<mapsto> six_pixels], webpSupported := Some True,
                requests := [''house.webp'', ''house.png''], notifications := [7, 8]\<rparr>)"
  by (simp add: loadImage_def house_webp listening_fields checkWebPSupport_def fallback_world_def
      loadImageDirect_def notifyImageLoaded_def Let_def)

lemma load_offline_sample:
  "loadImage offline_world ''house.png'' listening =
     (Inl (LoadError ''house.png''),
      listening\<lparr>webpSupported := Some False, requests := [''house.png'']\<rparr>)"
  by (simp add: loadImage_def house_webp listening_fields checkWebPSupport_def offline_world_def
      loadImageDirect_def notifyImageLoaded_def Let_def)

lemma load_webp_sample:
  "loadImage webp_world ''house.png'' initial_state =
     (Inr two_pixels,
      initial_state\<lparr>imageCache := [''house.webp'' \<mapsto> two_pixels, ''house.png'' \<mapsto> two_pixels],
                    webpSupported := Some True, requests := [''house.webp'']\<rparr>)"
  by (simp add: loadImage_def house_webp initial_state_def checkWebPSupport_def webp_world_def
      loadImageDirect_def notifyImageLoaded_def Let_def)

subsection \<open>Failure, fallback and notification\<close>

text \<open>
  Claim C5. \<^verbatim>\<open>loadImage\<close> rejects only when every request it made failed, the
  request for the original path among them: a failed request for the WebP sibling
  alone is recovered by the request for the original path, and whenever the original
  path loads the call resolves. When it rejects, the image cache is as before and no
  listener is called. When it resolves after a cache miss, every registered listener
  is called exactly once.
\<close>

theorem loadImage_failure_and_notification:
  assumes "loadImage w src st = (res, st')"
  shows "(\<forall>e. res = Inl e \<longrightarrow>
            fetch w src = None \<and> src \<in> set (issued st st') \<and>
            (\<forall>u \<in> set (issued st st'). fetch w u = None) \<and>
            imageCache st' = imageCache st \<and> notifications st' = notifications st) \<and>
         (fetch w src \<noteq> None \<longrightarrow> (\<exists>img. res = Inr img)) \<and>
         (\<forall>img. res = Inr img \<and> imageCache st src = None \<longrightarrow>
            notifications st' = notifications st @ imageLoadCallbacks st) \<and>
         imageLoadCallbacks st' = imageLoadCallbacks st"
proof (cases rule: loadImage_cases [of st src w])
  case (hit img)
  then show ?thesis using assms by auto
next
  case direct
  show ?thesis
  proof (cases "fetch w src")
    case None
    then show ?thesis
      using assms direct by (auto simp add: loadImageDirect_failure issued_def)
  next
    case (Some img)
    then show ?thesis
      using assms direct by (auto simp add: loadImageDirect_success)
  qed
next
  case (unsupported p st1)
  show ?thesis
  proof (cases "fetch w src")
    case None
    then show ?thesis
      using assms unsupported by (auto simp add: loadImageDirect_failure issued_def)
  next
    case (Some img)
    then show ?thesis
      using assms unsupported by (auto simp add: loadImageDirect_success)
  qed
next
  case (alternate p img st1)
  then show ?thesis using assms by auto
next
  case (fallback p st1)
  show ?thesis
  proof (cases "fetch w src")
    case None
    then show ?thesis
      using assms fallback by (auto simp add: loadImageDirect_failure issued_def)
  next
    case (Some img)
    then show ?thesis
      using assms fallback by (auto simp add: loadImageDirect_success)
  qed
qed

theorem loadImage_failure_and_notification_witness:
  "(\<exists>st'. loadImage fallback_world ''house.png'' listening = (Inr six_pixels, st') \<and>
      fetch fallback_world ''house.webp'' = None \<and>
      imageLoadCallbacks listening = [7, 8] \<and> notifications st' = [7, 8]) \<and>
   (\<exists>e st'. loadImage offline_world ''house.png'' listening = (Inl e, st') \<and>
      fetch offline_world ''house.png'' = None \<and>
      imageCache st' = imageCache listening \<and> notifications st' = [])"
proof -
  note ok = loadImage_failure_and_notification [OF load_fallback_sample]
  note bad = loadImage_failure_and_notification [OF load_offline_sample]
  let ?s = "listening\<lparr>imageCache := [''house.png'' \<mapsto> six_pixels], webpSupported := Some True,
                requests := [''house.webp'', ''house.png''], notifications := [7, 8]\<rparr>"
  let ?t = "listening\<lparr>webpSupported := Some False, requests := [''house.png'']\<rparr>"
  have "notifications ?s = notifications listening @ imageLoadCallbacks listening"
    using ok by (simp add: listening_fields)
  then have n1: "notifications ?s = [7, 8]" by (simp add: listening_fields)
  have "fetch offline_world ''house.png'' = None \<and> imageCache ?t = imageCache listening \<and>
      notifications ?t = notifications listening"
    using bad by simp
  then have n2: "fetch offline_world ''house.png'' = None \<and> imageCache ?t = imageCache listening \<and>
      notifications ?t = []" by (simp add: listening_fields)
  have f: "fetch fallback_world ''house.webp'' = None" by (simp add: fallback_world_def)
  show ?thesis
    using load_fallback_sample load_offline_sample n1 n2 f listening_fields(2) by blast
qed

subsection \<open>The image cache\<close>

text \<open>
  Claim C6. After \<^verbatim>\<open>loadImage(src)\<close> resolves, by the WebP sibling or by the
  original path, the image is in the cache under \<open>src\<close>: a second
  \<^verbatim>\<open>loadImage(src)\<close> resolves to the same image and makes no request, whatever the
  network does; after \<^verbatim>\<open>clearImageCache()\<close> the next \<^verbatim>\<open>loadImage(src)\<close> makes a
  request again, first for the WebP sibling or for \<open>src\<close>.
\<close>

theorem loadImage_caches_under_original_key:
  assumes "loadImage w src st = (Inr img, st')"
  shows "imageCache st' src = Some img \<and>
         (\<forall>w'. loadImage w' src st' = (Inr img, st') \<and>
                issued st' (snd (loadImage w' src st')) = []) \<and>
         (\<forall>w'. \<exists>u us. issued (clearImageCache st') (snd (loadImage w' src (clearImageCache st'))) = u # us \<and>
                  (u = src \<or> getWebPPath src = Some u))"
proof (intro conjI allI)
  show c: "imageCache st' src = Some img" by (rule loadImage_cached_after [OF assms])
  fix w'
  show "loadImage w' src st' = (Inr img, st')" using c by (rule loadImage_hit)
  then show "issued st' (snd (loadImage w' src st')) = []" by (simp add: issued_def)
  have "imageCache (clearImageCache st') src = None" by (simp add: clearImageCache_def)
  then show "\<exists>u us. issued (clearImageCache st') (snd (loadImage w' src (clearImageCache st'))) = u # us \<and>
                  (u = src \<or> getWebPPath src = Some u)"
    by (rule loadImage_miss_issues)
qed

theorem loadImage_caches_under_original_key_witness:
  "\<exists>st'. loadImage webp_world ''house.png'' initial_state = (Inr two_pixels, st') \<and>
      imageCache st' ''house.png'' = Some two_pixels \<and>
      loadImage offline_world ''house.png'' st' = (Inr two_pixels, st') \<and>
      issued (clearImageCache st') (snd (loadImage offline_world ''house.png'' (clearImageCache st'))) \<noteq> []"
proof -
  note inst = loadImage_caches_under_original_key [OF load_webp_sample]
  let ?s = "initial_state\<lparr>imageCache := [''house.webp'' \<mapsto> two_pixels, ''house.png'' \<mapsto> two_pixels],
                    webpSupported := Some True, requests := [''house.webp'']\<rparr>"
  have a: "imageCache ?s ''house.png'' = Some two_pixels" using inst by blast
  have b: "loadImage offline_world ''house.png'' ?s = (Inr two_pixels, ?s)" using inst by blast
  have "\<exists>u us. issued (clearImageCache ?s) (snd (loadImage offline_world ''house.png'' (clearImageCache ?s))) = u # us"
    using inst by blast
  then have c: "issued (clearImageCache ?s) (snd (loadImage offline_world ''house.png'' (clearImageCache ?s))) \<noteq> []"
    by auto
  show ?thesis using load_webp_sample a b c by blast
qed

subsection \<open>WebP negotiation\<close>

text \<open>
  Claim C8. The negotiation has no failing outcome. For a path that does not end in
  \<^verbatim>\<open>.png\<close> there is no WebP sibling and a load that misses the cache is the direct
  load of the path, one request. For a path \<open>base.png\<close> the sibling is \<open>base.webp\<close>;
  it is requested only when the support check answers true. The answer of the first
  check is stored: every later check gives it again, whatever the probe would say and
  whatever operations ran in between. A probe that fails answers false.
\<close>

theorem webp_negotiation:
  "(\<not> endsWith src ''.png'' \<longrightarrow>
      getWebPPath src = None \<and>
      (imageCache st src = None \<longrightarrow>
         loadImage w src st = loadImageDirect w src st \<and>
         issued st (snd (loadImage w src st)) = [src])) \<and>
   (endsWith src ''.png'' \<longrightarrow>
      (\<exists>base. src = base @ ''.png'' \<and> getWebPPath src = Some (base @ ''.webp''))) \<and>
   (\<forall>p. getWebPPath src = Some p \<and> p \<in> set (issued st (snd (loadImage w src st))) \<longrightarrow>
      fst (checkWebPSupport w st) \<and> webpSupported (snd (loadImage w src st)) = Some True) \<and>
   (\<forall>supported st'. checkWebPSupport w st = (supported, st') \<longrightarrow>
      webpSupported st' = Some supported \<and>
      (\<forall>w'. checkWebPSupport w' st' = (supported, st')) \<and>
      (\<forall>ops w'. checkWebPSupport w' (run ops st') = (supported, run ops st'))) \<and>
   (webpSupported st = None \<and> probe w = ProbeError \<longrightarrow> \<not> fst (checkWebPSupport w st))"
proof (intro conjI allI impI)
  assume "\<not> endsWith src ''.png''"
  then show n: "getWebPPath src = None" by (simp add: getWebPPath_def)
  assume miss: "imageCache st src = None"
  show "loadImage w src st = loadImageDirect w src st"
    by (rule loadImage_no_alternate [OF miss n])
  then show "issued st (snd (loadImage w src st)) = [src]"
    by (simp add: issued_loadImageDirect)
next
  assume e: "endsWith src ''.png''"
  show "\<exists>base. src = base @ ''.png'' \<and> getWebPPath src = Some (base @ ''.webp'')"
  proof (intro exI conjI)
    show "src = take (length src - 4) src @ ''.png''" by (rule endsWith_png [OF e])
    show "getWebPPath src = Some (take (length src - 4) src @ ''.webp'')"
      using e by (simp add: getWebPPath_def)
  qed
next
  fix p
  assume a: "getWebPPath src = Some p \<and> p \<in> set (issued st (snd (loadImage w src st)))"
  then have ne: "p \<noteq> src" using getWebPPath_differs by blast
  show "fst (checkWebPSupport w st)"
  proof (cases rule: loadImage_cases [of st src w])
    case (hit img)
    then show ?thesis using a by (simp add: issued_def)
  next
    case direct
    then show ?thesis using a by simp
  next
    case (unsupported p' st1)
    have "issued st (snd (loadImageDirect w src st1)) = [src]"
      using issued_loadImageDirect [of st1 w src] unsupported(4) by (simp add: issued_def)
    then show ?thesis using a ne unsupported(5) by simp
  next
    case (alternate p' img st1)
    then show ?thesis by simp
  next
    case (fallback p' st1)
    then show ?thesis by simp
  qed
  show "webpSupported (snd (loadImage w src st)) = Some True"
  proof (cases rule: loadImage_cases [of st src w])
    case (hit img)
    then show ?thesis using a by (simp add: issued_def)
  next
    case direct
    then show ?thesis using a by simp
  next
    case (unsupported p' st1)
    have "issued st (snd (loadImageDirect w src st1)) = [src]"
      using issued_loadImageDirect [of st1 w src] unsupported(4) by (simp add: issued_def)
    then show ?thesis using a ne unsupported(5) by simp
  next
    case (alternate p' img st1)
    then show ?thesis by simp
  next
    case (fallback p' st1)
    then show ?thesis by (simp add: loadImageDirect_frame)
  qed
next
  fix supported st'
  assume c: "checkWebPSupport w st = (supported, st')"
  show s: "webpSupported st' = Some supported"
    using checkWebPSupport_state [OF c] by simp
  show "checkWebPSupport w' st' = (supported, st')" for w'
    using s by (rule checkWebPSupport_cached)
  show "checkWebPSupport w' (run ops st') = (supported, run ops st')" for ops w'
    using run_webpSupported [OF s] by (rule checkWebPSupport_cached)
next
  assume "webpSupported st = None \<and> probe w = ProbeError"
  then show "\<not> fst (checkWebPSupport w st)" by (simp add: checkWebPSupport_def)
qed

theorem webp_negotiation_witness:
  "\<not> endsWith ''logo.svg'' ''.png'' \<and> getWebPPath ''logo.svg'' = None \<and>
   issued initial_state (snd (loadImage webp_world ''logo.svg'' initial_state)) = [''logo.svg''] \<and>
   endsWith ''house.png'' ''.png'' \<and> getWebPPath ''house.png'' = Some ''house.webp'' \<and>
   ''house.webp'' \<in> set (issued initial_state (snd (loadImage webp_world ''house.png'' initial_state))) \<and>
   fst (checkWebPSupport webp_world initial_state) \<and>
   probe offline_world = ProbeError \<and>
   checkWebPSupport offline_world initial_state = (False, initial_state\<lparr>webpSupported := Some False\<rparr>) \<and>
   checkWebPSupport webp_world (initial_state\<lparr>webpSupported := Some False\<rparr>) =
     (False, initial_state\<lparr>webpSupported := Some False\<rparr>)"
proof -
  note logo = webp_negotiation [of "''logo.svg''" initial_state webp_world]
  note house = webp_negotiation [of "''house.png''" initial_state webp_world]
  note off = webp_negotiation [of "''house.png''" initial_state offline_world]
  have miss: "imageCache initial_state ''logo.svg'' = None" by (simp add: initial_state_def)
  have l: "getWebPPath ''logo.svg'' = None"
    "issued initial_state (snd (loadImage webp_world ''logo.svg'' initial_state)) = [''logo.svg'']"
    using logo logo_no_webp miss by blast+
  have e: "endsWith ''house.png'' ''.png''" by (simp add: endsWith_def)
  have i: "''house.webp'' \<in> set (issued initial_state (snd (loadImage webp_world ''house.png'' initial_state)))"
    using miss by (simp add: load_webp_sample issued_def) (simp add: initial_state_def)
  have s: "fst (checkWebPSupport webp_world initial_state)"
    using house house_webp i by blast
  have p: "probe offline_world = ProbeError" by (simp add: offline_world_def)
  have c: "checkWebPSupport offline_world initial_state = (False, initial_state\<lparr>webpSupported := Some False\<rparr>)"
    by (simp add: checkWebPSupport_def offline_world_def initial_state_def)
  have c': "checkWebPSupport webp_world (initial_state\<lparr>webpSupported := Some False\<rparr>) =
     (False, initial_state\<lparr>webpSupported := Some False\<rparr>)"
    using off c by blast
  show ?thesis using logo_no_webp l e house_webp i s p c c' by blast
qed

subsection \<open>The content-bounds cache\<close>

text \<open>
  Claim C9. When the content-bounds cache holds a record for \<open>src\<close>,
  \<^verbatim>\<open>getContentBounds(src, img)\<close> returns that record and leaves the state as it is,
  for every \<open>img\<close> and every canvas, so without analysing \<open>img\<close>; the image cache
  plays no part in it; the record stays through every sequence of operations without
  \<^verbatim>\<open>clearImageCache\<close>, which empties the cache.
\<close>

theorem getContentBounds_cached:
  assumes "contentBoundsCache st src = Some bounds"
  shows "(\<forall>cv img. getContentBounds cv src img st = (bounds, st)) \<and>
         (\<forall>cache cv img. getContentBounds cv src img (st\<lparr>imageCache := cache\<rparr>) =
            (bounds, st\<lparr>imageCache := cache\<rparr>)) \<and>
         (\<forall>ops. ClearImageCache \<notin> set ops \<longrightarrow> contentBoundsCache (run ops st) src = Some bounds) \<and>
         contentBoundsCache (clearImageCache st) = Map.empty"
  using assms run_contentBoundsCache [OF _ assms]
  by (simp add: getContentBounds_def clearImageCache_def)

theorem getContentBounds_cached_witness:
  "contentBoundsCache analysed ''house.png'' = Some (analyzeContentBounds canvas_available six_pixels) \<and>
   analyzeContentBounds canvas_available transparent_pixel \<noteq>
     analyzeContentBounds canvas_available six_pixels \<and>
   getContentBounds canvas_available ''house.png'' transparent_pixel analysed =
     (analyzeContentBounds canvas_available six_pixels, analysed) \<and>
   contentBoundsCache (run [LoadImage webp_world ''house.png''] analysed) ''house.png'' =
     Some (analyzeContentBounds canvas_available six_pixels) \<and>
   contentBoundsCache (clearImageCache analysed) ''house.png'' = None"
proof -
  have c: "contentBoundsCache analysed ''house.png'' =
      Some (analyzeContentBounds canvas_available six_pixels)"
    by (simp add: analysed_def getContentBounds_def initial_state_def Let_def)
  note inst = getContentBounds_cached [OF c]
  have d: "analyzeContentBounds canvas_available transparent_pixel \<noteq>
     analyzeContentBounds canvas_available six_pixels"
    by (simp add: six_pixels_bounds transparent_pixel_bounds)
  have g: "getContentBounds canvas_available ''house.png'' transparent_pixel analysed =
     (analyzeContentBounds canvas_available six_pixels, analysed)"
    using inst by blast
  have "ClearImageCache \<notin> set [LoadImage webp_world ''house.png'']" by simp
  then have r: "contentBoundsCache (run [LoadImage webp_world ''house.png''] analysed) ''house.png'' =
     Some (analyzeContentBounds canvas_available six_pixels)"
    using inst by blast
  have e: "contentBoundsCache (clearImageCache analysed) ''house.png'' = None"
    using inst by simp
  show ?thesis using c d g r e by blast
qed

end
